theory Spec2Isabelle
  imports Main
begin

section \<open>Python built-ins used by backend/main.py\<close>

text \<open>
  A Python \<open>str\<close> is modelled as a \<open>string\<close>; a \<open>char\<close> stands for the code point of
  the same number, so the model covers the strings whose code points are below 256.
  Exceptions are values: every function that can raise returns \<open>exn + 'a\<close>, with
  \<open>Inl\<close> for the exception raised.
\<close>

datatype exn = ValueError string | IndexError string | CodecError string

text \<open>\<open>str(e)\<close>: the message of an exception.\<close>

fun str_exn :: "exn \<Rightarrow> string" where
  "str_exn (ValueError msg) = msg"
| "str_exn (IndexError msg) = msg"
| "str_exn (CodecError msg) = msg"

text \<open>\<open>isinstance(e, ValueError)\<close>, as the \<open>except ValueError\<close> clauses test it.\<close>

fun is_ValueError :: "exn \<Rightarrow> bool" where
  "is_ValueError (ValueError msg) = True"
| "is_ValueError (IndexError msg) = False"
| "is_ValueError (CodecError msg) = False"

text \<open>\<open>str.isspace\<close> on one character: the code points below 256 that Python counts as
  whitespace (\<open>\t \n \v \f \r\<close>, \<open>0x1c\<close> to \<open>0x1f\<close>, the blank, \<open>0x85\<close> and \<open>0xa0\<close>).\<close>

definition isspace :: "char \<Rightarrow> bool" where
  "isspace c = (c \<in> set [CHR 0x09, CHR 0x0A, CHR 0x0B, CHR 0x0C, CHR 0x0D,
                           CHR 0x1C, CHR 0x1D, CHR 0x1E, CHR 0x1F, CHR 0x20,
                           CHR 0x85, CHR 0xA0])"

text \<open>\<open>s.rstrip()\<close>, \<open>s.lstrip()\<close> and \<open>s.strip()\<close> with no argument.\<close>

definition rstrip :: "string \<Rightarrow> string" where
  "rstrip s = rev (dropWhile isspace (rev s))"

definition lstrip :: "string \<Rightarrow> string" where
  "lstrip s = dropWhile isspace s"

definition strip :: "string \<Rightarrow> string" where
  "strip s = rstrip (lstrip s)"

text \<open>\<open>s.split(sep)\<close> for a separator of one character: never empty, \<open>''.split(',')\<close> is
  \<open>['']\<close>. The last case of the \<open>case\<close> is never reached.\<close>

fun split :: "char \<Rightarrow> string \<Rightarrow> string list" where
  "split sep [] = [[]]"
| "split sep (c # cs) =
     (if c = sep then [] # split sep cs
      else (case split sep cs of w # ws \<Rightarrow> (c # w) # ws | [] \<Rightarrow> [[c]]))"

text \<open>\<open>s.endswith(suffix)\<close>.\<close>

definition endswith :: "string \<Rightarrow> string \<Rightarrow> bool" where
  "endswith s suffix = (length suffix \<le> length s \<and> drop (length s - length suffix) s = suffix)"

text \<open>\<open>sub in s\<close> for strings.\<close>

fun contains :: "string \<Rightarrow> string \<Rightarrow> bool" where
  "contains [] sub = (sub = [])"
| "contains (c # cs) sub = (take (length sub) (c # cs) = sub \<or> contains cs sub)"

text \<open>\<open>s.lower()\<close> below code point 256: \<open>A\<close> to \<open>Z\<close> and \<open>0xc0\<close> to \<open>0xde\<close> except \<open>0xd7\<close>
  move up by 32.\<close>

definition lower_char :: "char \<Rightarrow> char" where
  "lower_char c =
     (let n = (of_char c :: nat)
      in if (65 \<le> n \<and> n \<le> 90) \<or> (192 \<le> n \<and> n \<le> 222 \<and> n \<noteq> 215) then char_of (n + 32) else c)"

definition lower :: "string \<Rightarrow> string" where
  "lower s = map lower_char s"

text \<open>\<open>str(n)\<close> and \<open>f"{n}"\<close> for an integer: decimal digits, a minus sign when negative.\<close>

fun str_nat :: "nat \<Rightarrow> string" where
  "str_nat n =
     (if n < 10 then [''0123456789'' ! n] else str_nat (n div 10) @ [''0123456789'' ! (n mod 10)])"

declare str_nat.simps [simp del]

definition str_int :: "int \<Rightarrow> string" where
  "str_int i = (if i < 0 then CHR ''-'' # str_nat (nat (- i)) else str_nat (nat i))"

text \<open>\<open>repr(s)\<close> for a string: single quotes unless the string has a single quote and no
  double quote; the quote and the backslash escaped; \<open>\t\<close>, \<open>\n\<close>, \<open>\r\<close> by name; any other
  unprintable code point as \<open>\xNN\<close>.\<close>

definition printable :: "char \<Rightarrow> bool" where
  "printable c =
     (let n = (of_char c :: nat)
      in (32 \<le> n \<and> n < 127) \<or> (161 \<le> n \<and> n \<le> 255 \<and> n \<noteq> 173))"

definition repr_char :: "char \<Rightarrow> char \<Rightarrow> string" where
  "repr_char quote c =
     (if c = quote \<or> c = CHR 0x5C then [CHR 0x5C, c]
      else if c = CHR 0x09 then [CHR 0x5C, CHR ''t'']
      else if c = CHR 0x0A then [CHR 0x5C, CHR ''n'']
      else if c = CHR 0x0D then [CHR 0x5C, CHR ''r'']
      else if printable c then [c]
      else [CHR 0x5C, CHR ''x'',
            ''0123456789abcdef'' ! ((of_char c :: nat) div 16),
            ''0123456789abcdef'' ! ((of_char c :: nat) mod 16)])"

definition repr :: "string \<Rightarrow> string" where
  "repr s =
     (let quote = (if CHR 0x27 \<in> set s \<and> CHR 0x22 \<notin> set s then CHR 0x22 else CHR 0x27)
      in quote # concat (map (repr_char quote) s) @ [quote])"

subsection \<open>\<open>int(s)\<close> on a string\<close>

text \<open>
  CPython's \<open>int(s)\<close> in base 10. A code point from 127 on that is whitespace is read as a
  blank (here \<open>0x85\<close> and \<open>0xa0\<close>); the scanner then skips the C whitespace (\<open>\t\<close> to \<open>\r\<close> and
  the blank, not \<open>0x1c\<close> to \<open>0x1f\<close>) at both ends, takes one optional sign, and reads digits
  with single underscores between them. Anything else raises \<open>ValueError\<close> with the
  \<open>repr\<close> of the argument, cut at 200 characters. A literal of more digits than
  \<open>int_max_str_digits\<close> raises \<open>ValueError\<close> as well (the default limit of
  \<open>sys.set_int_max_str_digits\<close>).
\<close>

definition int_space :: "char \<Rightarrow> bool" where
  "int_space c = (c \<in> set [CHR 0x09, CHR 0x0A, CHR 0x0B, CHR 0x0C, CHR 0x0D, CHR 0x20,
                             CHR 0x85, CHR 0xA0])"

definition is_digit :: "char \<Rightarrow> bool" where
  "is_digit c = (48 \<le> (of_char c :: nat) \<and> (of_char c :: nat) \<le> 57)"

definition digit_value :: "char \<Rightarrow> int" where
  "digit_value c = int (of_char c) - 48"

definition int_max_str_digits :: nat where
  "int_max_str_digits = 4300"

fun double_underscore :: "string \<Rightarrow> bool" where
  "double_underscore (a # b # cs) = ((a = CHR ''_'' \<and> b = CHR ''_'') \<or> double_underscore (b # cs))"
| "double_underscore cs = False"

definition invalid_literal :: "string \<Rightarrow> exn" where
  "invalid_literal s = ValueError (''invalid literal for int() with base 10: '' @ take 200 (repr s))"

definition exceeds_limit :: "nat \<Rightarrow> exn" where
  "exceeds_limit digits =
     ValueError (''Exceeds the limit ('' @ str_nat int_max_str_digits
       @ '' digits) for integer string conversion: value has '' @ str_nat digits
       @ '' digits; use sys.set_int_max_str_digits() to increase the limit'')"

definition py_int :: "string \<Rightarrow> exn + int" where
  "py_int s =
     (let t = dropWhile int_space s;
          sign = (case t of c # _ \<Rightarrow> if c = CHR ''-'' then - 1 else 1 | [] \<Rightarrow> (1 :: int));
          u = (case t of c # r \<Rightarrow> if c = CHR ''+'' \<or> c = CHR ''-'' then r else t | [] \<Rightarrow> t);
          scan = takeWhile (\<lambda>c. is_digit c \<or> c = CHR ''_'') u;
          rest = dropWhile (\<lambda>c. is_digit c \<or> c = CHR ''_'') u;
          digits = filter is_digit scan
      in if scan = [] \<or> hd scan = CHR ''_'' \<or> double_underscore scan \<or> last scan = CHR ''_''
         then Inl (invalid_literal s)
         else if length digits > int_max_str_digits then Inl (exceeds_limit (length digits))
         else if dropWhile int_space rest \<noteq> [] then Inl (invalid_literal s)
         else Inr (sign * foldl (\<lambda>acc c. 10 * acc + digit_value c) 0 digits))"

section \<open>PageSelector: \<open>parse_page_selection\<close>\<close>

text \<open>
  \<open>start, end = map(int, parts)\<close>: the iterator is consumed lazily, so \<open>int\<close> is applied to
  the first two parts, and to a third one when there is one, before the unpacking
  complains about the number of values.
\<close>

fun unpack_ints :: "string list \<Rightarrow> exn + int \<times> int" where
  "unpack_ints [] = Inl (ValueError ''not enough values to unpack (expected 2, got 0)'')"
| "unpack_ints [a] =
     (case py_int a of Inl e \<Rightarrow> Inl e
      | Inr _ \<Rightarrow> Inl (ValueError ''not enough values to unpack (expected 2, got 1)''))"
| "unpack_ints (a # b # more) =
     (case py_int a of Inl e \<Rightarrow> Inl e
      | Inr start \<Rightarrow>
          (case py_int b of Inl e \<Rightarrow> Inl e
           | Inr end \<Rightarrow>
               (case more of [] \<Rightarrow> Inr (start, end)
                | c # _ \<Rightarrow>
                    (case py_int c of Inl e \<Rightarrow> Inl e
                     | Inr _ \<Rightarrow> Inl (ValueError ''too many values to unpack (expected 2)'')))))"

text \<open>The body of the loop of \<open>parse_page_selection\<close> for one part, already stripped: the
  page numbers it adds to \<open>page_numbers\<close>, or the exception it raises.\<close>

definition parse_part :: "string \<Rightarrow> int \<Rightarrow> exn + int list" where
  "parse_part part max_pages =
     (if CHR ''-'' \<in> set part then
        (case unpack_ints (split CHR ''-'' part) of
           Inl e \<Rightarrow> Inl e
         | Inr (start, end) \<Rightarrow>
             if start < 1 \<or> end > max_pages
             then Inl (ValueError (''Page range '' @ str_int start @ ''-'' @ str_int end
                        @ '' is out of range (1-'' @ str_int max_pages @ '')''))
             else Inr [start..end])
      else
        (case py_int part of
           Inl e \<Rightarrow> Inl e
         | Inr page_num \<Rightarrow>
             if page_num < 1 \<or> page_num > max_pages
             then Inl (ValueError (''Page '' @ str_int page_num
                        @ '' is out of range (1-'' @ str_int max_pages @ '')''))
             else Inr [page_num]))"

text \<open>The loop over the parts, with \<open>page_numbers\<close> as accumulator; the first exception
  ends it.\<close>

fun parse_loop :: "string list \<Rightarrow> int \<Rightarrow> int list \<Rightarrow> exn + int list" where
  "parse_loop [] max_pages page_numbers = Inr page_numbers"
| "parse_loop (part # parts) max_pages page_numbers =
     (case parse_part (strip part) max_pages of
        Inl e \<Rightarrow> Inl e
      | Inr ns \<Rightarrow> parse_loop parts max_pages (page_numbers @ ns))"

text \<open>\<open>sorted(list(set(page_numbers)))\<close> is \<open>sort (remdups page_numbers)\<close>: the order in
  which the set is listed does not survive the sort.\<close>

definition parse_page_selection :: "string \<Rightarrow> int \<Rightarrow> exn + int list" where
  "parse_page_selection pages_str max_pages =
     (case parse_loop (split CHR '','' pages_str) max_pages [] of
        Inl e \<Rightarrow> Inl e
      | Inr page_numbers \<Rightarrow> Inr (sort (remdups page_numbers)))"

text \<open>The specification's tokens, after stripping. A token is valid against \<open>total_pages\<close>
  when it is a single integer in \<open>1..total_pages\<close>, or a range \<open>start-end\<close> of two integers
  with \<open>start >= 1\<close> and \<open>end <= total_pages\<close>; an integer is what \<open>int\<close> reads. A single
  integer expands to that page, a range to the pages from \<open>start\<close> to \<open>end\<close>, both
  included. Neither definition refers to \<open>parse_part\<close>.\<close>

definition valid_token :: "string \<Rightarrow> int \<Rightarrow> bool" where
  "valid_token t total_pages =
     (case split CHR ''-'' t of
        [a] \<Rightarrow> (case py_int a of Inr n \<Rightarrow> 1 \<le> n \<and> n \<le> total_pages | Inl e \<Rightarrow> False)
      | [a, b] \<Rightarrow>
          (case py_int a of
             Inr start \<Rightarrow>
               (case py_int b of Inr end \<Rightarrow> 1 \<le> start \<and> end \<le> total_pages | Inl e \<Rightarrow> False)
           | Inl e \<Rightarrow> False)
      | _ \<Rightarrow> False)"

definition token_expansion :: "string \<Rightarrow> int list" where
  "token_expansion t =
     (case split CHR ''-'' t of
        [a] \<Rightarrow> (case py_int a of Inr n \<Rightarrow> [n] | Inl e \<Rightarrow> [])
      | [a, b] \<Rightarrow>
          (case py_int a of
             Inr start \<Rightarrow> (case py_int b of Inr end \<Rightarrow> [start..end] | Inl e \<Rightarrow> [])
           | Inl e \<Rightarrow> [])
      | _ \<Rightarrow> [])"

text \<open>The tokens that the specification calls invalid: a token with a hyphen that has not
  exactly two parts or has a part that is no integer; a token without hyphen that is no
  integer (the empty token is one) or is an integer outside \<open>1..total_pages\<close>.\<close>

definition invalid_token :: "string \<Rightarrow> int \<Rightarrow> bool" where
  "invalid_token t total_pages =
     (if CHR ''-'' \<in> set t
      then length (split CHR ''-'' t) \<noteq> 2 \<or> (\<exists>p \<in> set (split CHR ''-'' t). isl (py_int p))
      else (case py_int t of Inl e \<Rightarrow> True | Inr n \<Rightarrow> n < 1 \<or> n > total_pages))"

text \<open>A reversed range token: \<open>start-end\<close> with two integer parts, \<open>start > end\<close>,
  \<open>start >= 1\<close> and \<open>end <= total_pages\<close>.\<close>

definition reversed_range :: "string \<Rightarrow> int \<Rightarrow> bool" where
  "reversed_range t total_pages =
     (case split CHR ''-'' t of
        [a, b] \<Rightarrow>
          (case (py_int a, py_int b) of
             (Inr start, Inr end) \<Rightarrow> end < start \<and> 1 \<le> start \<and> end \<le> total_pages
           | _ \<Rightarrow> False)
      | _ \<Rightarrow> False)"

section \<open>The PDF codec and the upload directory\<close>

text \<open>
  PyPDF2 is not part of the repository, so the model takes it as a parameter: what
  \<open>PyPDF2.PdfReader(io.BytesIO(b)).pages\<close> holds, what \<open>get_pdf_metadata\<close> reads from the
  reader, what \<open>page.extract_text()\<close> returns, and the bytes that a \<open>PdfWriter\<close> holding a
  list of pages writes. Each of them may raise; what the reader may raise when a page is
  fetched is raised by \<open>PdfReader\<close> here. \<open>pdf_writer.add_page(page)\<close> appends the page to
  the writer's list.
\<close>

type_synonym bytes = string

record ('page, 'meta) codec =
  PdfReader :: "bytes \<Rightarrow> exn + 'page list"
  get_pdf_metadata :: "bytes \<Rightarrow> exn + 'meta"
  extract_text :: "'page \<Rightarrow> exn + string"
  PdfWriter_write :: "'page list \<Rightarrow> exn + bytes"

text \<open>\<open>pdf_reader.pages[index]\<close>: a negative index counts from the end, an index outside
  the list raises \<open>IndexError\<close>.\<close>

definition pages_getitem :: "'page list \<Rightarrow> int \<Rightarrow> exn + 'page" where
  "pages_getitem pages index =
     (let len_self = int (length pages);
          i = (if index < 0 then len_self + index else index)
      in if i < 0 \<or> i \<ge> len_self then Inl (IndexError ''sequence index out of range'')
         else Inr (pages ! nat i))"

text \<open>The files under \<open>UPLOAD_DIR\<close>, by path: a file of bytes, or a ZIP archive as the list
  of its entries (name and bytes) in the order they were written; \<open>zipfile\<close> keeps an
  entry whose name is already there.\<close>

datatype stored = File bytes | ZipFile "(string \<times> bytes) list"

type_synonym files = "string \<rightharpoonup> stored"

datatype http_error = HTTPException int string

text \<open>\<open>os.path.join(UPLOAD_DIR, name)\<close> for a name that does not start with a slash.\<close>

definition upload_path :: "string \<Rightarrow> string" where
  "upload_path name = ''uploads'' @ ''/'' @ name"

text \<open>\<open>p.rfind(c)\<close> and \<open>os.path.splitext(p)\<close> (POSIX): the extension starts at the last
  dot, when that dot comes after the last slash and after a character of the file name
  that is not a dot.\<close>

definition rfind :: "string \<Rightarrow> char \<Rightarrow> int" where
  "rfind p c =
     (if c \<in> set p then int (length p) - 1 - int (length (takeWhile (\<lambda>x. x \<noteq> c) (rev p)))
      else - 1)"

definition splitext :: "string \<Rightarrow> string \<times> string" where
  "splitext p =
     (let sepIndex = rfind p CHR ''/'';
          dotIndex = rfind p CHR ''.''
      in if dotIndex > sepIndex
            \<and> (\<exists>c \<in> set (take (nat (dotIndex - (sepIndex + 1))) (drop (nat (sepIndex + 1)) p)).
                  c \<noteq> CHR ''.'')
         then (take (nat dotIndex) p, drop (nat dotIndex) p)
         else (p, []))"

section \<open>PageExtractor: the endpoint \<open>split_pdf\<close>\<close>

text \<open>The loop of \<open>split_pdf\<close> over \<open>page_numbers\<close>; its state is the list of pages of
  \<open>pdf_writer\<close> and \<open>extracted_text\<close>.\<close>

fun extract_loop ::
  "('page, 'meta) codec \<Rightarrow> 'page list \<Rightarrow> int list \<Rightarrow> 'page list \<times> string
     \<Rightarrow> exn + 'page list \<times> string" where
  "extract_loop codec pages [] (pdf_writer, extracted_text) = Inr (pdf_writer, extracted_text)"
| "extract_loop codec pages (page_num # rest) (pdf_writer, extracted_text) =
     (case pages_getitem pages (page_num - 1) of
        Inl e \<Rightarrow> Inl e
      | Inr page \<Rightarrow>
          (case extract_text codec page of
             Inl e \<Rightarrow> Inl e
           | Inr text \<Rightarrow>
               extract_loop codec pages rest
                 (pdf_writer @ [page],
                  extracted_text @ ''=== Page '' @ str_int page_num @ '' ==='' @ [CHR 0x0A]
                    @ text @ [CHR 0x0A, CHR 0x0A])))"

text \<open>\<open>PDFSplitResponse\<close>, without \<open>file_size\<close> (a formatted float).\<close>

record 'meta PDFSplitResponse =
  status :: string
  message :: string
  download_url :: string
  metadata :: 'meta
  extracted_text :: string

text \<open>The two \<open>except\<close> clauses of \<open>split_pdf\<close>.\<close>

definition split_error :: "exn \<Rightarrow> http_error" where
  "split_error e =
     (if is_ValueError e then HTTPException 400 (str_exn e)
      else HTTPException 500 (''Error splitting PDF: '' @ str_exn e))"

text \<open>\<open>split_pdf\<close>: \<open>file_id\<close> is the fresh \<open>uuid4\<close>, \<open>fs\<close> the upload directory before the
  call; the result is the response or the \<open>HTTPException\<close>, and the directory after.\<close>

definition split_pdf ::
  "('page, 'meta) codec \<Rightarrow> string \<Rightarrow> files \<Rightarrow> bytes \<Rightarrow> string
     \<Rightarrow> (http_error + 'meta PDFSplitResponse) \<times> files" where
  "split_pdf codec file_id fs pdf_content pages =
     (case PdfReader codec pdf_content of
        Inl e \<Rightarrow> (Inl (split_error e), fs)
      | Inr pdf_pages \<Rightarrow>
     (case parse_page_selection pages (int (length pdf_pages)) of
        Inl e \<Rightarrow> (Inl (split_error e), fs)
      | Inr page_numbers \<Rightarrow>
     (case get_pdf_metadata codec pdf_content of
        Inl e \<Rightarrow> (Inl (split_error e), fs)
      | Inr meta \<Rightarrow>
     (case extract_loop codec pdf_pages page_numbers ([], []) of
        Inl e \<Rightarrow> (Inl (split_error e), fs)
      | Inr (pdf_writer, text) \<Rightarrow>
     (case PdfWriter_write codec pdf_writer of
        Inl e \<Rightarrow> (Inl (split_error e), fs)
      | Inr output \<Rightarrow>
          (Inr \<lparr>status = ''success'',
                message = ''Extracted pages '' @ pages @ '' successfully'',
                download_url = ''/download/'' @ file_id @ ''_split.pdf'',
                metadata = meta,
                extracted_text = strip text\<rparr>,
           fs(upload_path (file_id @ ''_split.pdf'') \<mapsto> File output)))))))"

section \<open>BatchRunner: the endpoint \<open>batch_process\<close>\<close>

text \<open>An uploaded file: its name, a string, and the bytes that \<open>await file.read()\<close>
  returns.\<close>

record UploadFile =
  filename :: string
  content :: bytes

record BatchProcessResponse =
  batch_status :: string
  batch_message :: string
  batch_download_url :: string
  processed_files :: nat
  total_files :: nat
  errors :: "string list"

text \<open>The inner loop of \<open>batch_process\<close>, adding the selected pages to \<open>pdf_writer\<close>.\<close>

fun add_pages :: "'page list \<Rightarrow> int list \<Rightarrow> 'page list \<Rightarrow> exn + 'page list" where
  "add_pages pages [] pdf_writer = Inr pdf_writer"
| "add_pages pages (page_num # rest) pdf_writer =
     (case pages_getitem pages (page_num - 1) of
        Inl e \<Rightarrow> Inl e
      | Inr page \<Rightarrow> add_pages pages rest (pdf_writer @ [page]))"

text \<open>The body of the loop over \<open>files\<close>, for one file: \<open>Inl\<close> the string it appends to
  \<open>errors\<close>, \<open>Inr\<close> the entry it writes to the archive (then \<open>processed_files\<close> goes up by
  one). The handler \<open>except Exception\<close> turns every other exception into an error
  string.\<close>

definition process_file ::
  "('page, 'meta) codec \<Rightarrow> string \<Rightarrow> UploadFile \<Rightarrow> string + string \<times> bytes" where
  "process_file codec pages file =
     (if \<not> endswith (lower (filename file)) ''.pdf''
      then Inl (''Skipped '' @ filename file @ '': Not a PDF file'')
      else
     (case PdfReader codec (content file) of
        Inl e \<Rightarrow> Inl (''Error processing '' @ filename file @ '': '' @ str_exn e)
      | Inr pdf_pages \<Rightarrow>
     (case parse_page_selection pages (int (length pdf_pages)) of
        Inl e \<Rightarrow> Inl (''Skipped '' @ filename file @ '': '' @ str_exn e)
      | Inr page_numbers \<Rightarrow>
     (case add_pages pdf_pages page_numbers [] of
        Inl e \<Rightarrow> Inl (''Error processing '' @ filename file @ '': '' @ str_exn e)
      | Inr pdf_writer \<Rightarrow>
     (case PdfWriter_write codec pdf_writer of
        Inl e \<Rightarrow> Inl (''Error processing '' @ filename file @ '': '' @ str_exn e)
      | Inr output \<Rightarrow>
          Inr (''extracted_'' @ fst (splitext (filename file)) @ ''.pdf'', output))))))"

text \<open>The loop over \<open>files\<close>; its state is the entries of \<open>zipf\<close>, \<open>processed_files\<close> and
  \<open>errors\<close>.\<close>

fun batch_loop ::
  "('page, 'meta) codec \<Rightarrow> string \<Rightarrow> UploadFile list
     \<Rightarrow> (string \<times> bytes) list \<times> nat \<times> string list
     \<Rightarrow> (string \<times> bytes) list \<times> nat \<times> string list" where
  "batch_loop codec pages [] (zipf, processed, errs) = (zipf, processed, errs)"
| "batch_loop codec pages (file # files) (zipf, processed, errs) =
     (case process_file codec pages file of
        Inl err \<Rightarrow> batch_loop codec pages files (zipf, processed, errs @ [err])
      | Inr entry \<Rightarrow> batch_loop codec pages files (zipf @ [entry], processed + 1, errs))"

text \<open>\<open>batch_process\<close>: \<open>batch_id\<close> is the fresh \<open>uuid4\<close>, \<open>fs\<close> the upload directory before
  the call. The archive is created before the loop and removed again when no file was
  processed.\<close>

definition batch_process ::
  "('page, 'meta) codec \<Rightarrow> string \<Rightarrow> files \<Rightarrow> UploadFile list \<Rightarrow> string
     \<Rightarrow> (http_error + BatchProcessResponse) \<times> files" where
  "batch_process codec batch_id fs files pages =
     (if files = [] then (Inl (HTTPException 400 ''No files uploaded''), fs)
      else
        let zip_filename = ''batch_'' @ batch_id @ ''.zip'';
            zip_path = upload_path zip_filename;
            (zipf, processed, errs) = batch_loop codec pages files ([], 0, []);
            fs' = fs(zip_path \<mapsto> ZipFile zipf)
        in if processed = 0
           then (Inl (HTTPException 400 ''No files were processed successfully''),
                 fs'(zip_path := None))
           else (Inr \<lparr>batch_status = ''success'',
                      batch_message = ''Processed '' @ str_nat processed @ '' files'',
                      batch_download_url = ''/download/'' @ zip_filename,
                      processed_files = processed,
                      total_files = length files,
                      errors = errs\<rparr>,
                 fs'))"

section \<open>Definitions for the statements and the examples\<close>

text \<open>The block that the loop of \<open>split_pdf\<close> appends for a page: the header line with the
  page number, the text of the page, and a blank line.\<close>

definition page_block :: "int \<Rightarrow> string \<Rightarrow> string" where
  "page_block page_num text =
     ''=== Page '' @ str_int page_num @ '' ==='' @ [CHR 0x0A] @ text @ [CHR 0x0A, CHR 0x0A]"

text \<open>A codec for the examples: a page is its text, the bytes of a document are the
  texts of its pages, each followed by a form feed; the empty file is unreadable; the
  metadata is the number of pages.\<close>

definition example_codec :: "(string, nat) codec" where
  "example_codec =
     \<lparr>PdfReader = (\<lambda>b. if b = [] then Inl (CodecError ''Cannot read an empty file'')
                        else Inr (butlast (split CHR 0x0C b))),
      get_pdf_metadata = (\<lambda>b. Inr (length (butlast (split CHR 0x0C b)))),
      extract_text = (\<lambda>page. Inr page),
      PdfWriter_write = (\<lambda>pages. Inr (concat (map (\<lambda>p. p @ [CHR 0x0C]) pages)))\<rparr>"


text \<open>What a batch leaves behind: the archive entries of the files that were processed
  and the error strings of the others, both in submission order.\<close>

definition written_entries ::
  "('page, 'meta) codec \<Rightarrow> string \<Rightarrow> UploadFile list \<Rightarrow> (string \<times> bytes) list" where
  "written_entries codec pages files =
     map projr (filter (\<lambda>r. \<not> isl r) (map (process_file codec pages) files))"

definition recorded_errors ::
  "('page, 'meta) codec \<Rightarrow> string \<Rightarrow> UploadFile list \<Rightarrow> string list" where
  "recorded_errors codec pages files =
     map projl (filter isl (map (process_file codec pages) files))"

text \<open>Three uploads for the examples: two documents of two pages each, and between them
  a file whose name does not end in \<open>.pdf\<close>.\<close>

definition example_files :: "UploadFile list" where
  "example_files =
     [\<lparr>filename = ''first.pdf'', content = ''alpha'' @ [CHR 0x0C] @ ''beta'' @ [CHR 0x0C]\<rparr>,
      \<lparr>filename = ''notes.txt'', content = ''gamma'' @ [CHR 0x0C]\<rparr>,
      \<lparr>filename = ''Third.PDF'', content = ''delta'' @ [CHR 0x0C] @ ''epsilon'' @ [CHR 0x0C]\<rparr>]"

section \<open>Properties of the built-ins\<close>

lemma split_not_Nil: "split sep s \<noteq> []"
  by (induction s) (auto split: list.splits)

lemma split_no_sep: "sep \<notin> set s \<Longrightarrow> split sep s = [s]"
  by (induction s) auto

lemma split_append_sep: "sep \<notin> set a \<Longrightarrow> split sep (a @ sep # b) = a # split sep b"
  by (induction a) auto

lemma split_sep_length: "sep \<in> set s \<Longrightarrow> 2 \<le> length (split sep s)"
proof (induction s)
  case Nil
  then show ?case by simp
next
  case (Cons c cs)
  show ?case
  proof (cases "c = sep")
    case True
    then show ?thesis using split_not_Nil [of sep cs] by (cases "split sep cs") auto
  next
    case False
    with Cons have "2 \<le> length (split sep cs)" by simp
    with False show ?thesis by (cases "split sep cs") auto
  qed
qed

lemma py_int_Inl: "py_int s = Inl e \<Longrightarrow> e = invalid_literal s \<or> (\<exists>d. e = exceeds_limit d)"
  by (auto simp: py_int_def Let_def split: if_splits)

lemma py_int_ValueError: "py_int s = Inl e \<Longrightarrow> \<exists>msg. e = ValueError msg"
  by (auto simp: invalid_literal_def exceeds_limit_def dest!: py_int_Inl)

lemma unpack_ints_Inr:
  "unpack_ints ps = Inr (start, end) \<longleftrightarrow> (\<exists>a b. ps = [a, b] \<and> py_int a = Inr start \<and> py_int b = Inr end)"
  by (induction ps rule: unpack_ints.induct) (auto split: sum.splits list.splits)

lemma unpack_ints_Inl:
  "unpack_ints ps = Inl e \<Longrightarrow>
     (\<exists>p \<in> set ps. py_int p = Inl e)
     \<or> (2 < length ps \<and> e = ValueError ''too many values to unpack (expected 2)'')
     \<or> (length ps < 2 \<and> (\<exists>msg. e = ValueError msg))"
  by (induction ps rule: unpack_ints.induct) (auto split: sum.splits list.splits)

lemma unpack_ints_ValueError: "unpack_ints ps = Inl e \<Longrightarrow> \<exists>msg. e = ValueError msg"
  by (induction ps rule: unpack_ints.induct) (auto split: sum.splits list.splits dest: py_int_ValueError)

lemma parse_part_ValueError: "parse_part t m = Inl e \<Longrightarrow> \<exists>msg. e = ValueError msg"
  by (auto simp: parse_part_def split: if_splits sum.splits prod.splits
      dest: py_int_ValueError unpack_ints_ValueError)

lemma parse_part_in_range: "parse_part t m = Inr ns \<Longrightarrow> n \<in> set ns \<Longrightarrow> 1 \<le> n \<and> n \<le> m"
  by (auto simp: parse_part_def split: if_splits sum.splits prod.splits)

lemma valid_token_parse_part:
  assumes "valid_token t m"
  shows "parse_part t m = Inr (token_expansion t)"
proof (cases "CHR ''-'' \<in> set t")
  case True
  from split_sep_length [OF True] have "2 \<le> length (split CHR ''-'' t)" .
  with assms obtain a b start "end" where ab: "split CHR ''-'' t = [a, b]"
    and i: "py_int a = Inr start" "py_int b = Inr end" and r: "1 \<le> start" "end \<le> m"
    by (auto simp: valid_token_def split: list.splits sum.splits)
  from ab i have "unpack_ints (split CHR ''-'' t) = Inr (start, end)" by (simp add: unpack_ints_Inr)
  with True ab i r show ?thesis by (simp add: parse_part_def token_expansion_def)
next
  case False
  then have "split CHR ''-'' t = [t]" by (simp add: split_no_sep)
  with False assms show ?thesis
    by (auto simp: valid_token_def parse_part_def token_expansion_def split: sum.splits)
qed

lemma parse_part_valid_token:
  assumes "\<not> isl (parse_part t m)"
  shows "valid_token t m"
proof (cases "CHR ''-'' \<in> set t")
  case True
  with assms obtain start "end" where u: "unpack_ints (split CHR ''-'' t) = Inr (start, end)"
    and r: "\<not> (start < 1 \<or> end > m)"
    by (auto simp: parse_part_def split: sum.splits prod.splits if_splits)
  from u obtain a b where "split CHR ''-'' t = [a, b]" "py_int a = Inr start" "py_int b = Inr end"
    by (auto simp: unpack_ints_Inr)
  with r show ?thesis by (simp add: valid_token_def)
next
  case False
  then have "split CHR ''-'' t = [t]" by (simp add: split_no_sep)
  with False assms show ?thesis
    by (auto simp: valid_token_def parse_part_def split: sum.splits if_splits)
qed

lemma valid_token_iff: "valid_token t m \<longleftrightarrow> \<not> isl (parse_part t m)"
  using valid_token_parse_part [of t m] parse_part_valid_token [of t m] by auto

lemma parse_part_expansion: "\<not> isl (parse_part t m) \<Longrightarrow> parse_part t m = Inr (token_expansion t)"
  by (rule valid_token_parse_part) (rule parse_part_valid_token)

lemma parse_loop_valid:
  "\<forall>t \<in> set parts. \<not> isl (parse_part (strip t) m) \<Longrightarrow>
   parse_loop parts m acc = Inr (acc @ concat (map (\<lambda>t. token_expansion (strip t)) parts))"
proof (induction parts arbitrary: acc)
  case Nil
  then show ?case by simp
next
  case (Cons t ts)
  then have "parse_part (strip t) m = Inr (token_expansion (strip t))"
    by (simp add: parse_part_expansion)
  with Cons show ?case by simp
qed

lemma parse_loop_invalid:
  "\<exists>t \<in> set parts. isl (parse_part (strip t) m) \<Longrightarrow> \<exists>msg. parse_loop parts m acc = Inl (ValueError msg)"
proof (induction parts arbitrary: acc)
  case Nil
  then show ?case by simp
next
  case (Cons t ts)
  show ?case
  proof (cases "parse_part (strip t) m")
    case (Inl e)
    then show ?thesis using parse_part_ValueError [OF Inl] by auto
  next
    case (Inr ns)
    with Cons.prems have "\<exists>t \<in> set ts. isl (parse_part (strip t) m)" by auto
    from Cons.IH [OF this] Inr show ?thesis by simp
  qed
qed

lemma parse_loop_first_error:
  "\<forall>t \<in> set before. \<not> isl (parse_part (strip t) m) \<Longrightarrow> parse_part (strip t) m = Inl e \<Longrightarrow>
   parse_loop (before @ t # after) m acc = Inl e"
proof (induction before arbitrary: acc)
  case Nil
  then show ?case by simp
next
  case (Cons b bs)
  then obtain ns where "parse_part (strip b) m = Inr ns"
    by (cases "parse_part (strip b) m") auto
  with Cons show ?case by simp
qed

section \<open>Properties of \<open>parse_page_selection\<close>\<close>

lemma split_two_sep: "length (split sep s) = 2 \<Longrightarrow> sep \<in> set s"
  by (cases "sep \<in> set s") (auto simp: split_no_sep)

lemma parse_valid:
  assumes "\<forall>t \<in> set (split CHR '','' s). \<not> isl (parse_part (strip t) m)"
  shows "parse_page_selection s m =
           Inr (sorted_list_of_set (\<Union>t \<in> set (split CHR '','' s). set (token_expansion (strip t))))"
proof -
  have "parse_loop (split CHR '','' s) m [] =
          Inr (concat (map (\<lambda>t. token_expansion (strip t)) (split CHR '','' s)))"
    using parse_loop_valid [OF assms, of "[]"] by simp
  moreover have "(\<Union>t \<in> set (split CHR '','' s). set (token_expansion (strip t))) =
          set (concat (map (\<lambda>t. token_expansion (strip t)) (split CHR '','' s)))"
    by simp
  ultimately show ?thesis
    by (simp only: parse_page_selection_def sum.case sorted_list_of_set_sort_remdups)
qed

lemma parse_invalid:
  assumes "\<exists>t \<in> set (split CHR '','' s). isl (parse_part (strip t) m)"
  shows "\<exists>msg. parse_page_selection s m = Inl (ValueError msg)"
  using parse_loop_invalid [OF assms, of "[]"] by (auto simp: parse_page_selection_def)

lemma unpack_ints_Inr_parts:
  "unpack_ints ps = Inr x \<Longrightarrow> length ps = 2 \<and> (\<forall>p \<in> set ps. \<not> isl (py_int p))"
  by (cases x) (auto simp: unpack_ints_Inr)

lemma invalid_token_fails: "invalid_token t m \<Longrightarrow> isl (parse_part t m)"
proof (cases "CHR ''-'' \<in> set t")
  case True
  assume "invalid_token t m"
  with True have "length (split CHR ''-'' t) \<noteq> 2 \<or> (\<exists>p \<in> set (split CHR ''-'' t). isl (py_int p))"
    by (simp add: invalid_token_def)
  then have "isl (unpack_ints (split CHR ''-'' t))"
    using unpack_ints_Inr_parts [of "split CHR ''-'' t"]
    by (cases "unpack_ints (split CHR ''-'' t)") auto
  with True show ?thesis
    by (auto simp: parse_part_def split: sum.splits)
next
  case False
  assume "invalid_token t m"
  with False show ?thesis
    by (auto simp: invalid_token_def parse_part_def split: sum.splits)
qed

lemma reversed_range_parse_part: "reversed_range t m \<Longrightarrow> parse_part t m = Inr []"
proof -
  assume r: "reversed_range t m"
  then obtain a b start "end" where ab: "split CHR ''-'' t = [a, b]"
    and "py_int a = Inr start" "py_int b = Inr end" and ord: "end < start" "1 \<le> start" "end \<le> m"
    by (auto simp: reversed_range_def split: list.splits sum.splits)
  then have u: "unpack_ints (split CHR ''-'' t) = Inr (start, end)"
    by (simp add: unpack_ints_Inr)
  from ab have "CHR ''-'' \<in> set t" using split_two_sep [of "CHR ''-''" t] by simp
  with u ord show ?thesis by (simp add: parse_part_def)
qed

lemma parse_part_zero: "parse_part t 0 = Inr ns \<Longrightarrow> ns = [] \<and> reversed_range t 0"
  by (auto simp: parse_part_def reversed_range_def unpack_ints_Inr split: if_splits sum.splits prod.splits)

lemma contains_prefix: "contains (sub @ s) sub"
proof (cases "sub @ s")
  case Nil
  then show ?thesis by simp
next
  case (Cons a l)
  have "take (length sub) (sub @ s) = sub" by simp
  then have "take (length sub) (a # l) = sub" by (simp only: Cons)
  then show ?thesis by (metis Cons contains.simps(2))
qed

lemma contains_append: "contains s sub \<Longrightarrow> contains (p @ s) sub"
  by (induction p) auto

lemma contains_infix: "contains (p @ sub @ s) sub"
  by (simp add: contains_append contains_prefix)

lemma parse_part_Inl_cases:
  assumes "parse_part t m = Inl e"
  shows "(\<exists>n. CHR ''-'' \<notin> set t \<and> py_int t = Inr n \<and> (n < 1 \<or> m < n)
            \<and> e = ValueError (''Page '' @ str_int n @ '' is out of range (1-'' @ str_int m @ '')''))
       \<or> (\<exists>a b. unpack_ints (split CHR ''-'' t) = Inr (a, b) \<and> (a < 1 \<or> m < b)
            \<and> e = ValueError (''Page range '' @ str_int a @ ''-'' @ str_int b
                              @ '' is out of range (1-'' @ str_int m @ '')''))
       \<or> (\<exists>p \<in> set (split CHR ''-'' t). py_int p = Inl e
            \<and> (e = invalid_literal p \<or> (\<exists>d. e = exceeds_limit d)))
       \<or> (2 < length (split CHR ''-'' t) \<and> e = ValueError ''too many values to unpack (expected 2)'')"
proof (cases "CHR ''-'' \<in> set t")
  case True
  show ?thesis
  proof (cases "unpack_ints (split CHR ''-'' t)")
    case (Inl e')
    with True assms have e: "e' = e" by (simp add: parse_part_def)
    from split_sep_length [OF True] have "\<not> length (split CHR ''-'' t) < 2" by simp
    with unpack_ints_Inl [of "split CHR ''-'' t" e] Inl e
    have "(\<exists>p \<in> set (split CHR ''-'' t). py_int p = Inl e)
          \<or> (2 < length (split CHR ''-'' t) \<and> e = ValueError ''too many values to unpack (expected 2)'')"
      by blast
    then show ?thesis using py_int_Inl by blast
  next
    case (Inr x)
    obtain a b where x: "x = (a, b)" by (cases x)
    with True Inr assms show ?thesis
      by (auto simp: parse_part_def split: if_splits)
  qed
next
  case False
  then have s: "split CHR ''-'' t = [t]" by (simp add: split_no_sep)
  show ?thesis
  proof (cases "py_int t")
    case (Inl e')
    with False assms have "e' = e" by (simp add: parse_part_def)
    with Inl s py_int_Inl [of t e] show ?thesis by simp
  next
    case (Inr n)
    with False assms show ?thesis by (auto simp: parse_part_def split: if_splits)
  qed
qed

lemma parse_first_error:
  assumes "split CHR '','' s = before @ t # after"
    and "\<forall>b \<in> set before. \<not> isl (parse_part (strip b) m)"
    and "parse_part (strip t) m = Inl e"
  shows "parse_page_selection s m = Inl e"
  using parse_loop_first_error [OF assms(2,3), of after "[]"] assms(1)
  by (simp add: parse_page_selection_def)

lemma py_int_Inl_exact:
  assumes "py_int q = Inl e"
  shows "(e = ValueError (''invalid literal for int() with base 10: '' @ take 200 (repr q))
          \<or> (\<exists>d. int_max_str_digits < d \<and> e = exceeds_limit d))
       \<and> (length q \<le> int_max_str_digits \<longrightarrow>
            e = ValueError (''invalid literal for int() with base 10: '' @ take 200 (repr q)))"
proof -
  let ?t = "dropWhile int_space q"
  let ?u = "case ?t of c # r \<Rightarrow> if c = CHR ''+'' \<or> c = CHR ''-'' then r else ?t | [] \<Rightarrow> ?t"
  let ?scan = "takeWhile (\<lambda>c. is_digit c \<or> c = CHR ''_'') ?u"
  have "length (case t of c # r \<Rightarrow> if c = CHR ''+'' \<or> c = CHR ''-'' then r else t | [] \<Rightarrow> t)
          \<le> length t" for t :: string
    by (cases t) auto
  then have "length ?u \<le> length ?t" .
  moreover have "length ?t \<le> length q" by (rule length_dropWhile_le)
  moreover have "length (filter is_digit ?scan) \<le> length ?scan" by (rule length_filter_le)
  moreover have "length ?scan \<le> length ?u" by (rule length_takeWhile_le)
  ultimately have le: "length (filter is_digit ?scan) \<le> length q" by linarith
  from assms have "e = invalid_literal q
      \<or> (int_max_str_digits < length (filter is_digit ?scan)
          \<and> e = exceeds_limit (length (filter is_digit ?scan)))"
    by (auto simp: py_int_def Let_def split: if_splits)
  with le show ?thesis by (auto simp: invalid_literal_def)
qed

lemma unpack_ints_first_bad:
  assumes "find (\<lambda>q. isl (py_int q)) (take 3 ps) = Some q" and "py_int q = Inl e"
  shows "unpack_ints ps = Inl e"
  using assms
  by (cases ps rule: unpack_ints.cases) (auto split: sum.splits list.splits if_splits)

lemma unpack_ints_too_many:
  assumes "find (\<lambda>q. isl (py_int q)) (take 3 ps) = None" and "2 < length ps"
  shows "unpack_ints ps = Inl (ValueError ''too many values to unpack (expected 2)'')"
  using assms
  by (cases ps rule: unpack_ints.cases) (auto split: sum.splits list.splits if_splits)

lemma parse_part_hyphen_bad:
  assumes "CHR ''-'' \<in> set p" and "find (\<lambda>q. isl (py_int q)) (take 3 (split CHR ''-'' p)) = Some q"
    and "py_int q = Inl e"
  shows "parse_part p m = Inl e"
  using assms(1) unpack_ints_first_bad [OF assms(2,3)] by (simp add: parse_part_def)

lemma parse_part_hyphen_many:
  assumes "CHR ''-'' \<in> set p" and "find (\<lambda>q. isl (py_int q)) (take 3 (split CHR ''-'' p)) = None"
    and "2 < length (split CHR ''-'' p)"
  shows "parse_part p m = Inl (ValueError ''too many values to unpack (expected 2)'')"
  using assms(1) unpack_ints_too_many [OF assms(2,3)] by (simp add: parse_part_def)

lemma parse_part_range_out:
  assumes "split CHR ''-'' p = [a, b]" and "py_int a = Inr start" and "py_int b = Inr end"
    and "start < 1 \<or> end > m"
  shows "parse_part p m = Inl (ValueError (''Page range '' @ str_int start @ ''-'' @ str_int end
                        @ '' is out of range (1-'' @ str_int m @ '')''))"
proof -
  from assms(1) have "CHR ''-'' \<in> set p" using split_two_sep [of "CHR ''-''" p] by simp
  moreover from assms(1-3) have "unpack_ints (split CHR ''-'' p) = Inr (start, end)"
    by (simp add: unpack_ints_Inr)
  ultimately show ?thesis using assms(4) by (auto simp: parse_part_def)
qed

lemma parse_part_single_out:
  assumes "CHR ''-'' \<notin> set p" and "py_int p = Inr n" and "n < 1 \<or> n > m"
  shows "parse_part p m = Inl (ValueError (''Page '' @ str_int n @ '' is out of range (1-'' @ str_int m @ '')''))"
  using assms by (auto simp: parse_part_def)

lemma parse_part_single_bad:
  assumes "CHR ''-'' \<notin> set p" and "py_int p = Inl e"
  shows "parse_part p m = Inl e"
  using assms by (simp add: parse_part_def)

section \<open>Properties of the extraction loop\<close>

lemma pages_getitem_valid:
  "1 \<le> n \<Longrightarrow> n \<le> int (length pages) \<Longrightarrow> pages_getitem pages (n - 1) = Inr (pages ! nat (n - 1))"
  by (simp add: pages_getitem_def Let_def)

lemma extract_loop_valid:
  assumes "\<forall>n \<in> set sel. 1 \<le> n \<and> n \<le> int (length pages)"
    and "\<forall>n \<in> set sel. \<not> isl (extract_text codec (pages ! nat (n - 1)))"
  shows "extract_loop codec pages sel (w, acc) =
           Inr (w @ map (\<lambda>n. pages ! nat (n - 1)) sel,
                acc @ concat (map (\<lambda>n. page_block n (projr (extract_text codec (pages ! nat (n - 1))))) sel))"
  using assms
proof (induction sel arbitrary: w acc)
  case Nil
  then show ?case by simp
next
  case (Cons n ns)
  from Cons.prems have g: "pages_getitem pages (n - 1) = Inr (pages ! nat (n - 1))"
    by (simp add: pages_getitem_valid)
  from Cons.prems obtain t where t: "extract_text codec (pages ! nat (n - 1)) = Inr t"
    by (cases "extract_text codec (pages ! nat (n - 1))") auto
  from Cons.prems have rest: "\<forall>n \<in> set ns. 1 \<le> n \<and> n \<le> int (length pages)"
    "\<forall>n \<in> set ns. \<not> isl (extract_text codec (pages ! nat (n - 1)))" by simp_all
  show ?case
    by (simp add: g t Cons.IH [OF rest] page_block_def)
qed

lemma add_pages_valid:
  "\<forall>n \<in> set sel. 1 \<le> n \<and> n \<le> int (length pages) \<Longrightarrow>
   add_pages pages sel w = Inr (w @ map (\<lambda>n. pages ! nat (n - 1)) sel)"
  by (induction sel arbitrary: w) (simp_all add: pages_getitem_valid)


lemma strip_no_leading_space: "s = [] \<or> \<not> isspace (hd s) \<Longrightarrow> strip s = rstrip s"
  by (cases s) (auto simp: strip_def lstrip_def)

lemma blocks_no_leading_space:
  "concat (map (\<lambda>n. page_block n (f n)) sel) = []
   \<or> \<not> isspace (hd (concat (map (\<lambda>n. page_block n (f n)) sel)))"
  by (cases sel) (simp_all add: page_block_def isspace_def)

lemma parse_page_selection_in_range:
  assumes "parse_page_selection s m = Inr ps"
  shows "\<forall>n \<in> set ps. 1 \<le> n \<and> n \<le> m"
proof -
  have valid: "\<forall>t \<in> set (split CHR '','' s). \<not> isl (parse_part (strip t) m)"
  proof (rule ccontr)
    assume "\<not> ?thesis"
    then have "\<exists>t \<in> set (split CHR '','' s). isl (parse_part (strip t) m)" by simp
    from parse_invalid [OF this] assms show False by auto
  qed
  have "1 \<le> n \<and> n \<le> m"
    if "t \<in> set (split CHR '','' s)" "n \<in> set (token_expansion (strip t))" for t n
  proof -
    from valid that(1) have "parse_part (strip t) m = Inr (token_expansion (strip t))"
      by (simp add: parse_part_expansion)
    from parse_part_in_range [OF this that(2)] show ?thesis .
  qed
  with parse_valid [OF valid] assms show ?thesis by auto
qed

lemma split_pdf_success:
  assumes "PdfReader codec pdf_content = Inr pages"
    and "parse_page_selection expr (int (length pages)) = Inr sel"
    and "get_pdf_metadata codec pdf_content = Inr meta"
    and "\<forall>n \<in> set sel. \<not> isl (extract_text codec (pages ! nat (n - 1)))"
    and "PdfWriter_write codec (map (\<lambda>n. pages ! nat (n - 1)) sel) = Inr written"
  shows "split_pdf codec file_id fs pdf_content expr =
           (Inr \<lparr>status = ''success'',
                 message = ''Extracted pages '' @ expr @ '' successfully'',
                 download_url = ''/download/'' @ file_id @ ''_split.pdf'',
                 metadata = meta,
                 extracted_text =
                   strip (concat (map (\<lambda>n. page_block n (projr (extract_text codec (pages ! nat (n - 1))))) sel))\<rparr>,
            fs(upload_path (file_id @ ''_split.pdf'') \<mapsto> File written))"
proof -
  from parse_page_selection_in_range [OF assms(2)]
  have valid: "\<forall>n \<in> set sel. 1 \<le> n \<and> n \<le> int (length pages)" .
  show ?thesis
    using extract_loop_valid [OF valid assms(4), of "[]" "[]"] assms(1,2,3,5)
    by (simp add: split_pdf_def)
qed




section \<open>Properties of the batch loop\<close>

lemma batch_loop_eq:
  "batch_loop codec pages files (zipf, processed, errs) =
     (zipf @ written_entries codec pages files,
      processed + length (written_entries codec pages files),
      errs @ recorded_errors codec pages files)"
proof (induction files arbitrary: zipf processed errs)
  case Nil
  then show ?case by (simp add: written_entries_def recorded_errors_def)
next
  case (Cons f fs)
  show ?case
  proof (cases "process_file codec pages f")
    case (Inl err)
    then show ?thesis by (simp add: Cons written_entries_def recorded_errors_def)
  next
    case (Inr entry)
    then show ?thesis by (simp add: Cons written_entries_def recorded_errors_def)
  qed
qed

lemma entries_errors_length:
  "length (written_entries codec pages files) + length (recorded_errors codec pages files)
     = length files"
  using sum_length_filter_compl [of isl "map (process_file codec pages) files"]
  by (simp add: written_entries_def recorded_errors_def)

lemma batch_process_eq:
  assumes "files \<noteq> []"
  shows "batch_process codec batch_id fs files pages =
    (if written_entries codec pages files = []
     then (Inl (HTTPException 400 ''No files were processed successfully''),
           fs(upload_path (''batch_'' @ batch_id @ ''.zip'') := None))
     else (Inr \<lparr>batch_status = ''success'',
                batch_message =
                  ''Processed '' @ str_nat (length (written_entries codec pages files)) @ '' files'',
                batch_download_url = ''/download/'' @ ''batch_'' @ batch_id @ ''.zip'',
                processed_files = length (written_entries codec pages files),
                total_files = length files,
                errors = recorded_errors codec pages files\<rparr>,
           fs(upload_path (''batch_'' @ batch_id @ ''.zip'') \<mapsto>
                ZipFile (written_entries codec pages files))))"
  using assms by (simp add: batch_process_def batch_loop_eq Let_def)

lemma batch_process_no_files:
  "batch_process codec batch_id fs [] pages = (Inl (HTTPException 400 ''No files uploaded''), fs)"
  by (simp add: batch_process_def)

lemma written_entries_none:
  "\<forall>f \<in> set files. isl (process_file codec pages f) \<Longrightarrow> written_entries codec pages files = []"
  by (simp add: written_entries_def filter_empty_conv)

lemma not_pdf_skipped:
  "\<not> endswith (lower (filename f)) ''.pdf'' \<Longrightarrow>
   process_file codec pages f = Inl (''Skipped '' @ filename f @ '': Not a PDF file'')"
  by (simp add: process_file_def)

lemma written_entries_all:
  "\<forall>f \<in> set files. \<not> isl (process_file codec pages f) \<Longrightarrow>
   written_entries codec pages files = map (\<lambda>f. projr (process_file codec pages f)) files
   \<and> recorded_errors codec pages files = []"
  by (induction files) (simp_all add: written_entries_def recorded_errors_def)

lemma written_entries_append:
  "written_entries codec pages (xs @ ys) = written_entries codec pages xs @ written_entries codec pages ys"
  by (simp add: written_entries_def)

lemma recorded_errors_append:
  "recorded_errors codec pages (xs @ ys) = recorded_errors codec pages xs @ recorded_errors codec pages ys"
  by (simp add: recorded_errors_def)

lemma written_entries_Cons:
  "written_entries codec pages (f # fs) =
     (case process_file codec pages f of Inl e \<Rightarrow> [] | Inr entry \<Rightarrow> [entry]) @ written_entries codec pages fs"
  by (simp add: written_entries_def split: sum.splits)

lemma recorded_errors_Cons:
  "recorded_errors codec pages (f # fs) =
     (case process_file codec pages f of Inl e \<Rightarrow> [e] | Inr entry \<Rightarrow> []) @ recorded_errors codec pages fs"
  by (simp add: recorded_errors_def split: sum.splits)

lemma one_not_pdf:
  assumes "\<not> endswith (lower (filename f)) ''.pdf''"
    and "\<forall>g \<in> set (before @ after). \<not> isl (process_file codec pages g)"
  shows "written_entries codec pages (before @ f # after)
           = map (\<lambda>g. projr (process_file codec pages g)) (before @ after)"
    and "recorded_errors codec pages (before @ f # after)
           = [''Skipped '' @ filename f @ '': Not a PDF file'']"
proof -
  from assms(2) have b: "\<forall>g \<in> set before. \<not> isl (process_file codec pages g)"
    and a: "\<forall>g \<in> set after. \<not> isl (process_file codec pages g)" by simp_all
  show "written_entries codec pages (before @ f # after)
           = map (\<lambda>g. projr (process_file codec pages g)) (before @ after)"
    by (simp add: written_entries_append written_entries_Cons not_pdf_skipped [OF assms(1)]
        written_entries_all [OF b] written_entries_all [OF a])
  show "recorded_errors codec pages (before @ f # after)
           = [''Skipped '' @ filename f @ '': Not a PDF file'']"
    by (simp add: recorded_errors_append recorded_errors_Cons not_pdf_skipped [OF assms(1)]
        written_entries_all [OF b] written_entries_all [OF a])
qed

section \<open>The claims about PageSelector\<close>

text \<open>
  Claim C1. When every token of the expression is valid against \<open>total_pages\<close>,
  \<open>parse_page_selection\<close> returns the pages that the tokens expand to (a single integer to
  that page, a range to its pages from start to end), with duplicates removed and in
  strictly ascending order. The result is a function of the set of tokens, so the order
  in which the tokens appear does not matter. In particular \<open>parse("2,1,2", 5) = [1, 2]\<close>
  and \<open>parse("1-3,5", 5) = [1, 2, 3, 5]\<close>.
\<close>

theorem parse_sorted_dedup:
  "((\<forall>t \<in> set (split CHR '','' s). valid_token (strip t) m) \<longrightarrow>
      parse_page_selection s m =
        Inr (sorted_list_of_set (\<Union>t \<in> set (split CHR '','' s). set (token_expansion (strip t))))
      \<and> sorted_wrt (<)
           (sorted_list_of_set (\<Union>t \<in> set (split CHR '','' s). set (token_expansion (strip t)))))
   \<and> parse_page_selection ''2,1,2'' 5 = Inr [1, 2]
   \<and> parse_page_selection ''1-3,5'' 5 = Inr [1, 2, 3, 5]"
proof -
  have "parse_page_selection ''2,1,2'' 5 = Inr [1, 2]" by code_simp
  moreover have "parse_page_selection ''1-3,5'' 5 = Inr [1, 2, 3, 5]" by code_simp
  ultimately show ?thesis by (simp add: parse_valid valid_token_iff)
qed

theorem parse_sorted_dedup_witness:
  "list_all (\<lambda>t. valid_token (strip t) 4) (split CHR '','' ''3, 1-2,2'')
   \<and> sorted_list_of_set (\<Union>t \<in> set (split CHR '','' ''3, 1-2,2''). set (token_expansion (strip t)))
       = [1, 2, 3]
   \<and> parse_page_selection ''3, 1-2,2'' 4 = Inr [1, 2, 3]"
proof -
  have valid: "\<forall>t \<in> set (split CHR '','' ''3, 1-2,2''). valid_token (strip t) 4"
    by code_simp
  have "sorted_list_of_set (\<Union>t \<in> set (split CHR '','' ''3, 1-2,2''). set (token_expansion (strip t)))
          = [1, 2, 3]"
    by code_simp
  with valid parse_sorted_dedup [of "''3, 1-2,2''" 4] show ?thesis by (simp add: list_all_iff)
qed

text \<open>
  Claim C7. For an expression whose tokens are all valid against a fixed \<open>total_pages\<close>,
  parsing any expression with the same set of tokens gives the same result: a permutation
  of the tokens has the same set, and so has a list that repeats some of them.
\<close>

theorem parse_permutation_invariant:
  assumes "\<forall>t \<in> set (split CHR '','' s). \<not> isl (parse_part (strip t) m)"
    and "set (split CHR '','' s') = set (split CHR '','' s)"
  shows "parse_page_selection s' m = parse_page_selection s m"
  using assms by (simp add: parse_valid)

theorem parse_permutation_invariant_witness:
  "list_all (\<lambda>t. \<not> isl (parse_part (strip t) 5)) (split CHR '','' ''1-3,5,2'')
   \<and> set (split CHR '','' ''5,2,1-3,5'') = set (split CHR '','' ''1-3,5,2'')
   \<and> parse_page_selection ''5,2,1-3,5'' 5 = parse_page_selection ''1-3,5,2'' 5
   \<and> parse_page_selection ''1-3,5,2'' 5 = Inr [1, 2, 3, 5]"
proof -
  have valid: "\<forall>t \<in> set (split CHR '','' ''1-3,5,2''). \<not> isl (parse_part (strip t) 5)"
    by code_simp
  have same: "set (split CHR '','' ''5,2,1-3,5'') = set (split CHR '','' ''1-3,5,2'')"
    by code_simp
  have "parse_page_selection ''1-3,5,2'' 5 = Inr [1, 2, 3, 5]" by code_simp
  with valid same parse_permutation_invariant [OF valid same] show ?thesis
    by (simp add: list_all_iff)
qed

text \<open>
  Claim C9. A reversed range token \<open>start-end\<close> with \<open>start > end\<close>, \<open>start >= 1\<close> and
  \<open>end <= total_pages\<close> does not fail and contributes no page number; an expression made of
  such tokens only parses to the empty list, as \<open>parse("5-2", 5)\<close> does.
\<close>

theorem reversed_range_accepted:
  "(reversed_range t m \<longrightarrow> parse_part t m = Inr [])
   \<and> ((\<forall>t \<in> set (split CHR '','' s). reversed_range (strip t) m) \<longrightarrow> parse_page_selection s m = Inr [])
   \<and> reversed_range ''5-2'' 5 \<and> parse_page_selection ''5-2'' 5 = Inr []"
proof -
  have "parse_page_selection s m = Inr []" if r: "\<forall>t \<in> set (split CHR '','' s). reversed_range (strip t) m"
  proof -
    from r have p: "\<forall>t \<in> set (split CHR '','' s). parse_part (strip t) m = Inr []"
      by (simp add: reversed_range_parse_part)
    then have "\<forall>t \<in> set (split CHR '','' s). \<not> isl (parse_part (strip t) m)" by simp
    moreover have "token_expansion (strip t) = []" if "t \<in> set (split CHR '','' s)" for t
      using p that parse_part_expansion [of "strip t" m] by auto
    then have "(\<Union>t \<in> set (split CHR '','' s). set (token_expansion (strip t))) = {}"
      by simp
    ultimately show ?thesis by (simp add: parse_valid)
  qed
  moreover have "reversed_range ''5-2'' 5" by code_simp
  moreover have "parse_page_selection ''5-2'' 5 = Inr []" by code_simp
  ultimately show ?thesis by (simp add: reversed_range_parse_part)
qed

theorem reversed_range_accepted_witness:
  "reversed_range ''9-4'' 6 \<and> parse_part ''9-4'' 6 = Inr []
   \<and> list_all (\<lambda>t. reversed_range (strip t) 6) (split CHR '','' ''9-4, 3-1'')
   \<and> parse_page_selection ''9-4, 3-1'' 6 = Inr []"
proof -
  have one: "reversed_range ''9-4'' 6" by code_simp
  have all: "\<forall>t \<in> set (split CHR '','' ''9-4, 3-1''). reversed_range (strip t) 6" by code_simp
  from one all reversed_range_accepted [of "''9-4''" 6 "''9-4, 3-1''"] show ?thesis
    by (simp add: list_all_iff)
qed

text \<open>
  Claim C6, as stated, fails: with \<open>total_pages = 0\<close> the non-empty token \<open>1-0\<close> is
  accepted, and the expression \<open>"1-0"\<close> parses to the empty list.
\<close>

theorem zero_pages_token_counterexample:
  "''1-0'' \<noteq> [] \<and> parse_part (strip ''1-0'') 0 = Inr [] \<and> parse_page_selection ''1-0'' 0 = Inr []"
  by code_simp

text \<open>
  Claim C6, amended. With \<open>total_pages = 0\<close> every token fails with \<open>ValueError\<close> except a
  reversed range \<open>start-end\<close> with \<open>start >= 1\<close> and \<open>end <= 0\<close>, which is accepted and
  contributes no page; so a parse that succeeds returns the empty list.
\<close>

theorem zero_pages_no_page:
  "(parse_part t 0 = Inr ns \<longrightarrow> ns = [] \<and> reversed_range t 0)
   \<and> (\<not> reversed_range t 0 \<longrightarrow> (\<exists>msg. parse_part t 0 = Inl (ValueError msg)))
   \<and> (parse_page_selection s 0 = Inr ps \<longrightarrow> ps = [])"
proof -
  have a: "ns = [] \<and> reversed_range t 0" if "parse_part t 0 = Inr ns" for t ns
    using that by (rule parse_part_zero)
  have b: "\<exists>msg. parse_part t 0 = Inl (ValueError msg)" if "\<not> reversed_range t 0"
  proof (cases "parse_part t 0")
    case (Inl e)
    then show ?thesis using parse_part_ValueError [OF Inl] by simp
  next
    case (Inr ns)
    with a that show ?thesis by blast
  qed
  have c: "ps = []" if ok: "parse_page_selection s 0 = Inr ps"
  proof -
    have valid: "\<forall>t \<in> set (split CHR '','' s). \<not> isl (parse_part (strip t) 0)"
    proof (rule ccontr)
      assume "\<not> ?thesis"
      then have "\<exists>t \<in> set (split CHR '','' s). isl (parse_part (strip t) 0)" by simp
      from parse_invalid [OF this] ok show False by auto
    qed
    have "token_expansion (strip t) = []" if "t \<in> set (split CHR '','' s)" for t
      using valid that parse_part_expansion [of "strip t" 0] a [of "strip t"] by auto
    with parse_valid [OF valid] ok show ?thesis by simp
  qed
  from a b c show ?thesis by blast
qed

theorem zero_pages_no_page_witness:
  "parse_part ''1-0'' 0 = Inr [] \<and> reversed_range ''1-0'' 0
   \<and> \<not> reversed_range ''1'' 0 \<and> parse_part ''1'' 0 = Inl (ValueError ''Page 1 is out of range (1-0)'')
   \<and> parse_page_selection ''2-0, 1-0'' 0 = Inr []"
proof -
  have p: "parse_part ''1-0'' 0 = Inr []" by code_simp
  have n: "\<not> reversed_range ''1'' 0" by code_simp
  have m: "parse_part ''1'' 0 = Inl (ValueError ''Page 1 is out of range (1-0)'')" by code_simp
  have q: "parse_page_selection ''2-0, 1-0'' 0 = Inr []" by code_simp
  from p n m q zero_pages_no_page [of "''1-0''" "[]" "''2-0, 1-0''" "[]"] show ?thesis by simp
qed

text \<open>
  Claim C3, as stated, fails: the token \<open>7-8-9\<close> is a malformed range, and the message of
  the \<open>ValueError\<close> raised for it names neither the token nor one of its values.
\<close>

theorem message_names_token_counterexample:
  "invalid_token (strip ''7-8-9'') 9
   \<and> parse_page_selection ''7-8-9'' 9 = Inl (ValueError ''too many values to unpack (expected 2)'')
   \<and> \<not> contains ''too many values to unpack (expected 2)'' ''7-8-9''
   \<and> \<not> contains ''too many values to unpack (expected 2)'' ''7''
   \<and> \<not> contains ''too many values to unpack (expected 2)'' ''8''
   \<and> \<not> contains ''too many values to unpack (expected 2)'' ''9''"
  by code_simp

text \<open>
  Claim C3, amended. An expression with a token that is non-numeric, empty, a malformed
  range, or a single integer written without hyphen that is below 1 or above
  \<open>total_pages\<close> fails with \<open>ValueError\<close>, and the exception is the one of the first token
  that fails. The token decides the message. Without hyphen: an integer \<open>N\<close> out of range
  gets \<open>Page N is out of range (1-total_pages)\<close>, which names \<open>N\<close>; a token that \<open>int\<close>
  rejects, the empty one included, gets the message of \<open>int\<close> for the token. With a hyphen:
  when one of the first three parts between hyphens is no integer, the message of \<open>int\<close>
  for the first such part, so that \<open>-3\<close>, read as a range with an empty first part, gets
  \<open>invalid literal for int() with base 10: ''\<close> and no message about page -3; otherwise
  \<open>too many values to unpack (expected 2)\<close> when there are more than two parts, and
  \<open>Page range A-B is out of range (1-total_pages)\<close> for two parts out of range. The
  message of \<open>int\<close> for a part is \<open>invalid literal for int() with base 10:\<close> followed by
  the \<open>repr\<close> of the part cut at 200 characters, always so for a part of at most 4300
  characters, and else may be the message about the limit of digits. \<open>parse("7", 5)\<close>
  fails with \<open>Page 7 is out of range (1-5)\<close>.
\<close>

theorem invalid_selection_message:
  "((\<exists>t \<in> set (split CHR '','' s). invalid_token (strip t) m) \<longrightarrow>
       (\<exists>msg. parse_page_selection s m = Inl (ValueError msg)))
   \<and> (split CHR '','' s = before @ t # after
        \<and> (\<forall>b \<in> set before. \<not> isl (parse_part (strip b) m))
        \<and> parse_part (strip t) m = Inl e \<longrightarrow> parse_page_selection s m = Inl e)
   \<and> (CHR ''-'' \<notin> set p \<and> py_int p = Inr n \<and> (n < 1 \<or> n > m) \<longrightarrow>
        parse_part p m = Inl (ValueError (''Page '' @ str_int n @ '' is out of range (1-'' @ str_int m @ '')''))
        \<and> contains (''Page '' @ str_int n @ '' is out of range (1-'' @ str_int m @ '')'') (str_int n))
   \<and> (CHR ''-'' \<notin> set p \<and> py_int p = Inl e' \<longrightarrow> parse_part p m = Inl e')
   \<and> (CHR ''-'' \<in> set p
        \<and> find (\<lambda>q. isl (py_int q)) (take 3 (split CHR ''-'' p)) = Some q
        \<and> py_int q = Inl e' \<longrightarrow> parse_part p m = Inl e')
   \<and> (CHR ''-'' \<in> set p
        \<and> find (\<lambda>q. isl (py_int q)) (take 3 (split CHR ''-'' p)) = None
        \<and> 2 < length (split CHR ''-'' p) \<longrightarrow>
        parse_part p m = Inl (ValueError ''too many values to unpack (expected 2)''))
   \<and> (split CHR ''-'' p = [a, b] \<and> py_int a = Inr start \<and> py_int b = Inr end
        \<and> (start < 1 \<or> end > m) \<longrightarrow>
        parse_part p m = Inl (ValueError (''Page range '' @ str_int start @ ''-'' @ str_int end
                                @ '' is out of range (1-'' @ str_int m @ '')'')))
   \<and> (py_int q = Inl e' \<longrightarrow>
        (e' = ValueError (''invalid literal for int() with base 10: '' @ take 200 (repr q))
         \<or> (\<exists>d. int_max_str_digits < d \<and> e' = exceeds_limit d))
        \<and> (length q \<le> int_max_str_digits \<longrightarrow>
             e' = ValueError (''invalid literal for int() with base 10: '' @ take 200 (repr q))))
   \<and> parse_page_selection ''7'' 5 = Inl (ValueError ''Page 7 is out of range (1-5)'')
   \<and> contains ''Page 7 is out of range (1-5)'' ''7''
   \<and> parse_page_selection ''-3'' 5
        = Inl (ValueError (''invalid literal for int() with base 10: '' @ [CHR 0x27, CHR 0x27]))"
proof -
  have a: "\<exists>msg. parse_page_selection s m = Inl (ValueError msg)"
    if "\<exists>t \<in> set (split CHR '','' s). invalid_token (strip t) m"
  proof -
    from that have "\<exists>t \<in> set (split CHR '','' s). isl (parse_part (strip t) m)"
      using invalid_token_fails by blast
    then show ?thesis by (rule parse_invalid)
  qed
  have e: "parse_page_selection ''7'' 5 = Inl (ValueError ''Page 7 is out of range (1-5)'')"
    by code_simp
  have f: "contains ''Page 7 is out of range (1-5)'' ''7''" by code_simp
  have g: "parse_page_selection ''-3'' 5
        = Inl (ValueError (''invalid literal for int() with base 10: '' @ [CHR 0x27, CHR 0x27]))"
    by code_simp
  show ?thesis
    apply (intro conjI impI)
    subgoal using a by blast
    subgoal by (elim conjE) (rule parse_first_error)
    subgoal by (elim conjE) (rule parse_part_single_out)
    subgoal by (rule contains_infix)
    subgoal by (elim conjE) (rule parse_part_single_bad)
    subgoal by (elim conjE) (rule parse_part_hyphen_bad)
    subgoal by (elim conjE) (rule parse_part_hyphen_many)
    subgoal by (elim conjE) (rule parse_part_range_out)
    subgoal using py_int_Inl_exact by blast
    subgoal using py_int_Inl_exact by blast
    subgoal by (rule e)
    subgoal by (rule f)
    subgoal by (rule g)
    done
qed

theorem invalid_selection_message_witness:
  "(\<exists>t \<in> set (split CHR '','' ''2, 7,x''). invalid_token (strip t) 5)
   \<and> split CHR '','' ''2, 7,x'' = [''2''] @ '' 7'' # [''x'']
   \<and> list_all (\<lambda>b. \<not> isl (parse_part (strip b) 5)) [''2'']
   \<and> CHR ''-'' \<notin> set ''7'' \<and> py_int ''7'' = Inr 7 \<and> (7 < (1::int) \<or> 7 > (5::int))
   \<and> parse_part (strip '' 7'') 5 = Inl (ValueError ''Page 7 is out of range (1-5)'')
   \<and> parse_page_selection ''2, 7,x'' 5 = Inl (ValueError ''Page 7 is out of range (1-5)'')
   \<and> CHR ''-'' \<in> set ''-3''
   \<and> find (\<lambda>q. isl (py_int q)) (take 3 (split CHR ''-'' ''-3'')) = Some ''''
   \<and> parse_part ''-3'' 5
        = Inl (ValueError (''invalid literal for int() with base 10: '' @ [CHR 0x27, CHR 0x27]))"
proof -
  note T = invalid_selection_message [where s = "''2, 7,x''" and m = 5 and before = "[''2'']"
      and t = "'' 7''" and after = "[''x'']" and e = "ValueError ''Page 7 is out of range (1-5)''"
      and p = "''7''" and n = 7]
  note first_error = T [THEN conjunct2, THEN conjunct1, rule_format]
  note single = T [THEN conjunct2, THEN conjunct2, THEN conjunct1, rule_format]
  note U = invalid_selection_message [where p = "''-3''" and m = 5 and q = "''''"
      and e' = "ValueError (''invalid literal for int() with base 10: '' @ [CHR 0x27, CHR 0x27])"]
  note hyphen = U [THEN conjunct2, THEN conjunct2, THEN conjunct2, THEN conjunct2, THEN conjunct1,
      rule_format]
  have inv: "\<exists>t \<in> set (split CHR '','' ''2, 7,x''). invalid_token (strip t) 5" by code_simp
  have sp: "split CHR '','' ''2, 7,x'' = [''2''] @ '' 7'' # [''x'']" by code_simp
  have ok: "\<forall>b \<in> set [''2'']. \<not> isl (parse_part (strip b) 5)" by code_simp
  have st: "strip '' 7'' = ''7''" by code_simp
  have h: "CHR ''-'' \<notin> set ''7''" by simp
  have i: "py_int ''7'' = Inr 7" by code_simp
  have r: "7 < (1::int) \<or> 7 > (5::int)" by simp
  have msg: "''Page '' @ str_int 7 @ '' is out of range (1-'' @ str_int 5 @ '')''
               = ''Page 7 is out of range (1-5)''"
    by code_simp
  have "parse_part ''7'' 5
          = Inl (ValueError (''Page '' @ str_int 7 @ '' is out of range (1-'' @ str_int 5 @ '')''))"
    using single [OF conjI [OF h conjI [OF i r]]] by (rule conjunct1)
  then have part: "parse_part (strip '' 7'') 5 = Inl (ValueError ''Page 7 is out of range (1-5)'')"
    by (simp only: st msg)
  have whole: "parse_page_selection ''2, 7,x'' 5 = Inl (ValueError ''Page 7 is out of range (1-5)'')"
    by (rule first_error [OF conjI [OF sp conjI [OF ok part]]])
  have hy: "CHR ''-'' \<in> set ''-3''" by simp
  have fi: "find (\<lambda>q. isl (py_int q)) (take 3 (split CHR ''-'' ''-3'')) = Some ''''" by code_simp
  have em: "py_int '''' = Inl (ValueError (''invalid literal for int() with base 10: '' @ [CHR 0x27, CHR 0x27]))"
    by code_simp
  have neg: "parse_part ''-3'' 5
        = Inl (ValueError (''invalid literal for int() with base 10: '' @ [CHR 0x27, CHR 0x27]))"
    by (rule hyphen [OF conjI [OF hy conjI [OF fi em]]])
  from ok have ok': "list_all (\<lambda>b. \<not> isl (parse_part (strip b) 5)) [''2'']"
    by (simp only: list_all_iff)
  from inv sp ok' h i r part whole hy fi neg show ?thesis by (intro conjI)
qed

section \<open>The claims about PageExtractor\<close>




text \<open>
  Claim C8. For such a selection the text accumulated by the loop is the concatenation,
  in the order of the selection, of one block per page: the line \<open>=== Page N ===\<close>, the
  text of the page, and a blank line. \<open>split_pdf\<close> returns it stripped; the text starts
  with \<open>=\<close> when it is not empty, so stripping it removes trailing whitespace only.
\<close>

theorem extracted_text_blocks:
  "((\<forall>n \<in> set sel. 1 \<le> n \<and> n \<le> int (length pages))
      \<and> (\<forall>n \<in> set sel. \<not> isl (extract_text codec (pages ! nat (n - 1)))) \<longrightarrow>
      (\<exists>out text. extract_loop codec pages sel ([], []) = Inr (out, text)
         \<and> text = concat (map (\<lambda>n. page_block n (projr (extract_text codec (pages ! nat (n - 1))))) sel)
         \<and> strip text = rstrip text))
   \<and> (PdfReader codec pdf_content = Inr pages
      \<and> parse_page_selection expr (int (length pages)) = Inr sel
      \<and> get_pdf_metadata codec pdf_content = Inr meta
      \<and> (\<forall>n \<in> set sel. \<not> isl (extract_text codec (pages ! nat (n - 1))))
      \<and> PdfWriter_write codec (map (\<lambda>n. pages ! nat (n - 1)) sel) = Inr written \<longrightarrow>
      (\<exists>response fs'. split_pdf codec file_id fs pdf_content expr = (Inr response, fs')
         \<and> extracted_text response =
             rstrip (concat (map (\<lambda>n. page_block n (projr (extract_text codec (pages ! nat (n - 1))))) sel))))"
proof (intro conjI impI)
  assume "(\<forall>n \<in> set sel. 1 \<le> n \<and> n \<le> int (length pages))
      \<and> (\<forall>n \<in> set sel. \<not> isl (extract_text codec (pages ! nat (n - 1))))"
  then have v: "\<forall>n \<in> set sel. 1 \<le> n \<and> n \<le> int (length pages)"
    and t: "\<forall>n \<in> set sel. \<not> isl (extract_text codec (pages ! nat (n - 1)))" by simp_all
  show "\<exists>out text. extract_loop codec pages sel ([], []) = Inr (out, text)
         \<and> text = concat (map (\<lambda>n. page_block n (projr (extract_text codec (pages ! nat (n - 1))))) sel)
         \<and> strip text = rstrip text"
    using extract_loop_valid [OF v t, of "[]" "[]"]
      strip_no_leading_space [OF blocks_no_leading_space]
    by simp
next
  assume a: "PdfReader codec pdf_content = Inr pages
      \<and> parse_page_selection expr (int (length pages)) = Inr sel
      \<and> get_pdf_metadata codec pdf_content = Inr meta
      \<and> (\<forall>n \<in> set sel. \<not> isl (extract_text codec (pages ! nat (n - 1))))
      \<and> PdfWriter_write codec (map (\<lambda>n. pages ! nat (n - 1)) sel) = Inr written"
  then have "split_pdf codec file_id fs pdf_content expr =
           (Inr \<lparr>status = ''success'',
                 message = ''Extracted pages '' @ expr @ '' successfully'',
                 download_url = ''/download/'' @ file_id @ ''_split.pdf'',
                 metadata = meta,
                 extracted_text =
                   strip (concat (map (\<lambda>n. page_block n (projr (extract_text codec (pages ! nat (n - 1))))) sel))\<rparr>,
            fs(upload_path (file_id @ ''_split.pdf'') \<mapsto> File written))"
    by (intro split_pdf_success) simp_all
  then show "\<exists>response fs'. split_pdf codec file_id fs pdf_content expr = (Inr response, fs')
         \<and> extracted_text response =
             rstrip (concat (map (\<lambda>n. page_block n (projr (extract_text codec (pages ! nat (n - 1))))) sel))"
    using strip_no_leading_space [OF blocks_no_leading_space] by simp
qed

theorem extracted_text_blocks_witness:
  "(\<exists>out. extract_loop example_codec [''one '', ''two'', ''three  ''] [1, 3] ([], [])
            = Inr (out, page_block 1 ''one '' @ page_block 3 ''three  ''))
   \<and> (\<exists>response fs'.
         split_pdf example_codec ''id'' Map.empty
           (''one '' @ [CHR 0x0C] @ ''two'' @ [CHR 0x0C] @ ''three  '' @ [CHR 0x0C]) ''3,1''
           = (Inr response, fs')
         \<and> extracted_text response =
             ''=== Page 1 ==='' @ [CHR 0x0A] @ ''one '' @ [CHR 0x0A, CHR 0x0A]
               @ ''=== Page 3 ==='' @ [CHR 0x0A] @ ''three'')"
proof -
  let ?pages = "[''one '', ''two'', ''three  '']"
  let ?doc = "''one '' @ [CHR 0x0C] @ ''two'' @ [CHR 0x0C] @ ''three  '' @ [CHR 0x0C]"
  let ?sel = "[1, 3] :: int list"
  note T = extracted_text_blocks [where codec = example_codec and pages = ?pages and sel = ?sel
      and pdf_content = ?doc and expr = "''3,1''" and meta = 3 and written = "''one '' @ [CHR 0x0C] @ ''three  '' @ [CHR 0x0C]"
      and file_id = "''id''" and fs = Map.empty]
  have valid: "\<forall>n \<in> set ?sel. 1 \<le> n \<and> n \<le> int (length ?pages)" by simp
  have texts: "\<forall>n \<in> set ?sel. \<not> isl (extract_text example_codec (?pages ! nat (n - 1)))"
    by (simp add: example_codec_def)
  have reader: "PdfReader example_codec ?doc = Inr ?pages" by code_simp
  have parse: "parse_page_selection ''3,1'' (int (length ?pages)) = Inr ?sel" by code_simp
  have meta: "get_pdf_metadata example_codec ?doc = Inr 3" by code_simp
  have writer: "PdfWriter_write example_codec (map (\<lambda>n. ?pages ! nat (n - 1)) ?sel)
                  = Inr (''one '' @ [CHR 0x0C] @ ''three  '' @ [CHR 0x0C])"
    by code_simp
  have blocks: "concat (map (\<lambda>n. page_block n (projr (extract_text example_codec (?pages ! nat (n - 1))))) ?sel)
                  = page_block 1 ''one '' @ page_block 3 ''three  ''"
    by (simp add: example_codec_def)
  have trimmed: "rstrip (page_block 1 ''one '' @ page_block 3 ''three  '')
                  = ''=== Page 1 ==='' @ [CHR 0x0A] @ ''one '' @ [CHR 0x0A, CHR 0x0A]
                      @ ''=== Page 3 ==='' @ [CHR 0x0A] @ ''three''"
    by code_simp
  from T [THEN conjunct1, rule_format, OF conjI [OF valid texts]]
  have one: "\<exists>out. extract_loop example_codec ?pages ?sel ([], [])
            = Inr (out, page_block 1 ''one '' @ page_block 3 ''three  '')"
    unfolding blocks by blast
  from T [THEN conjunct2, rule_format, OF conjI [OF reader conjI [OF parse conjI [OF meta conjI [OF texts writer]]]]]
  have two: "\<exists>response fs'. split_pdf example_codec ''id'' Map.empty ?doc ''3,1'' = (Inr response, fs')
         \<and> extracted_text response =
             ''=== Page 1 ==='' @ [CHR 0x0A] @ ''one '' @ [CHR 0x0A, CHR 0x0A]
               @ ''=== Page 3 ==='' @ [CHR 0x0A] @ ''three''"
    unfolding blocks trimmed .
  from one two show ?thesis by (rule conjI)
qed

section \<open>The claims about BatchRunner\<close>

text \<open>
  Claim C2. When no document of a batch is processed, \<open>batch_process\<close> raises the
  \<open>HTTPException\<close> 400 and hands out no archive: for a batch with documents the detail is
  \<open>No files were processed successfully\<close> and the archive that was created is removed
  from the upload directory; a request without documents is refused with \<open>No files
  uploaded\<close> before an archive is created.
\<close>

theorem no_documents_processed:
  assumes "\<forall>f \<in> set files. isl (process_file codec pages f)"
  shows "(\<exists>detail. fst (batch_process codec batch_id fs files pages) = Inl (HTTPException 400 detail))
    \<and> (files \<noteq> [] \<longrightarrow>
         batch_process codec batch_id fs files pages =
           (Inl (HTTPException 400 ''No files were processed successfully''),
            fs(upload_path (''batch_'' @ batch_id @ ''.zip'') := None)))
    \<and> (files = [] \<longrightarrow>
         batch_process codec batch_id fs files pages = (Inl (HTTPException 400 ''No files uploaded''), fs))"
proof (cases "files = []")
  case True
  then show ?thesis by (simp add: batch_process_no_files)
next
  case False
  with written_entries_none [OF assms] show ?thesis by (simp add: batch_process_eq)
qed

theorem no_documents_processed_witness:
  "batch_process example_codec ''b1'' Map.empty example_files ''3'' =
     (Inl (HTTPException 400 ''No files were processed successfully''),
      Map.empty(upload_path (''batch_'' @ ''b1'' @ ''.zip'') := None))"
proof -
  have fail: "\<forall>f \<in> set example_files. isl (process_file example_codec ''3'' f)" by code_simp
  have ne: "example_files \<noteq> []" by (simp add: example_files_def)
  from no_documents_processed [OF fail, of "''b1''" Map.empty] ne show ?thesis by blast
qed

text \<open>
  Claim C4. A file whose name does not end in \<open>.pdf\<close>, whatever the case of the letters,
  is skipped with the error \<open>Skipped <name>: Not a PDF file\<close>, and the other files are
  processed all the same. In a batch with a processed file, the archive holds the entries
  of the files that were processed and \<open>errors\<close> the strings of the others, each list in
  submission order. When the file without \<open>.pdf\<close> is the only one that fails, wherever
  it stands in the batch, every other file has its entry in the archive and the response
  counts them and carries that one error. For three files of which the second has such a
  name: \<open>processed_files = 2\<close>, \<open>total_files = 3\<close> and one error, which names the second
  file.
\<close>

theorem batch_isolates_failures:
  "(\<not> endswith (lower (filename f)) ''.pdf'' \<longrightarrow>
      process_file codec pages f = Inl (''Skipped '' @ filename f @ '': Not a PDF file''))
   \<and> (written_entries codec pages files \<noteq> [] \<longrightarrow>
      (\<exists>response. batch_process codec batch_id fs files pages =
          (Inr response,
           fs(upload_path (''batch_'' @ batch_id @ ''.zip'') \<mapsto>
                ZipFile (written_entries codec pages files)))
        \<and> processed_files response = length (written_entries codec pages files)
        \<and> total_files response = length files
        \<and> errors response = recorded_errors codec pages files))
   \<and> (\<not> endswith (lower (filename f)) ''.pdf''
      \<and> (\<forall>g \<in> set (before @ after). \<not> isl (process_file codec pages g))
      \<and> before @ after \<noteq> [] \<longrightarrow>
      (\<exists>response. batch_process codec batch_id fs (before @ f # after) pages =
          (Inr response,
           fs(upload_path (''batch_'' @ batch_id @ ''.zip'') \<mapsto>
                ZipFile (map (\<lambda>g. projr (process_file codec pages g)) (before @ after))))
        \<and> processed_files response = length before + length after
        \<and> total_files response = length before + length after + 1
        \<and> errors response = [''Skipped '' @ filename f @ '': Not a PDF file'']))
   \<and> (\<not> endswith (lower (filename f2)) ''.pdf''
      \<and> \<not> isl (process_file codec pages f1) \<and> \<not> isl (process_file codec pages f3) \<longrightarrow>
      (\<exists>response fs'. batch_process codec batch_id fs [f1, f2, f3] pages = (Inr response, fs')
        \<and> processed_files response = 2
        \<and> total_files response = 3
        \<and> errors response = [''Skipped '' @ filename f2 @ '': Not a PDF file'']))"
proof -
  have general: "\<exists>response. batch_process codec batch_id fs (before @ f # after) pages =
          (Inr response,
           fs(upload_path (''batch_'' @ batch_id @ ''.zip'') \<mapsto>
                ZipFile (map (\<lambda>g. projr (process_file codec pages g)) (before @ after))))
        \<and> processed_files response = length before + length after
        \<and> total_files response = length before + length after + 1
        \<and> errors response = [''Skipped '' @ filename f @ '': Not a PDF file'']"
    if np: "\<not> endswith (lower (filename f)) ''.pdf''"
      and ok: "\<forall>g \<in> set (before @ after). \<not> isl (process_file codec pages g)"
      and ne: "before @ after \<noteq> []"
    for f before after
  proof -
    have "before @ f # after \<noteq> []" by simp
    from batch_process_eq [OF this, of codec batch_id fs pages] ne
    show ?thesis by (simp add: one_not_pdf [OF np ok])
  qed
  have three: "\<exists>response fs'. batch_process codec batch_id fs [f1, f2, f3] pages = (Inr response, fs')
        \<and> processed_files response = 2
        \<and> total_files response = 3
        \<and> errors response = [''Skipped '' @ filename f2 @ '': Not a PDF file'']"
    if "\<not> endswith (lower (filename f2)) ''.pdf''"
      "\<not> isl (process_file codec pages f1)" "\<not> isl (process_file codec pages f3)"
    using general [of f2 "[f1]" "[f3]"] that by auto
  have every: "\<exists>response. batch_process codec batch_id fs files pages =
          (Inr response,
           fs(upload_path (''batch_'' @ batch_id @ ''.zip'') \<mapsto>
                ZipFile (written_entries codec pages files)))
        \<and> processed_files response = length (written_entries codec pages files)
        \<and> total_files response = length files
        \<and> errors response = recorded_errors codec pages files"
    if some: "written_entries codec pages files \<noteq> []"
  proof -
    from some have "files \<noteq> []" by (auto simp: written_entries_def)
    from batch_process_eq [OF this, of codec batch_id fs pages] some show ?thesis by simp
  qed
  from every general three not_pdf_skipped [of f codec pages] show ?thesis by blast
qed

theorem batch_isolates_failures_witness:
  "\<exists>response fs'. batch_process example_codec ''b1'' Map.empty example_files ''2'' = (Inr response, fs')
     \<and> processed_files response = 2
     \<and> total_files response = 3
     \<and> errors response = [''Skipped notes.txt: Not a PDF file'']"
proof -
  let ?f1 = "\<lparr>filename = ''first.pdf'', content = ''alpha'' @ [CHR 0x0C] @ ''beta'' @ [CHR 0x0C]\<rparr>"
  let ?f2 = "\<lparr>filename = ''notes.txt'', content = ''gamma'' @ [CHR 0x0C]\<rparr>"
  let ?f3 = "\<lparr>filename = ''Third.PDF'', content = ''delta'' @ [CHR 0x0C] @ ''epsilon'' @ [CHR 0x0C]\<rparr>"
  have np: "\<not> endswith (lower (filename ?f2)) ''.pdf''" by code_simp
  have ok1: "\<not> isl (process_file example_codec ''2'' ?f1)" by code_simp
  have ok3: "\<not> isl (process_file example_codec ''2'' ?f3)" by code_simp
  note T = batch_isolates_failures [where codec = example_codec and pages = "''2''"
      and ?f1.0 = ?f1 and ?f2.0 = ?f2 and ?f3.0 = ?f3 and batch_id = "''b1''" and fs = Map.empty]
  from T [THEN conjunct2, THEN conjunct2, THEN conjunct2, rule_format,
      OF conjI [OF np conjI [OF ok1 ok3]]]
  show ?thesis by (simp add: example_files_def)
qed

text \<open>
  Claim C10. When \<open>batch_process\<close> returns a response, every submitted file either
  counts in \<open>processed_files\<close> or has one string in \<open>errors\<close>:
  \<open>processed_files + len(errors) = total_files\<close>, the number of files submitted, and the
  archive under the upload directory has \<open>processed_files\<close> entries.
\<close>

theorem batch_report_counts:
  assumes "batch_process codec batch_id fs files pages = (Inr report, fs')"
  shows "processed_files report + length (errors report) = total_files report
    \<and> total_files report = length files
    \<and> (\<exists>entries. fs' (upload_path (''batch_'' @ batch_id @ ''.zip'')) = Some (ZipFile entries)
          \<and> length entries = processed_files report)"
proof -
  have ne: "files \<noteq> []" using assms by (auto simp: batch_process_no_files)
  from assms batch_process_eq [OF ne, of codec batch_id fs pages] entries_errors_length [of codec pages files]
  show ?thesis by (auto split: if_splits)
qed

theorem batch_report_counts_witness:
  "\<exists>report fs'. batch_process example_codec ''b1'' Map.empty example_files ''2'' = (Inr report, fs')
     \<and> processed_files report = 2 \<and> length (errors report) = 1 \<and> total_files report = 3
     \<and> processed_files report + length (errors report) = total_files report
     \<and> (\<exists>entries. fs' (upload_path (''batch_'' @ ''b1'' @ ''.zip'')) = Some (ZipFile entries)
           \<and> length entries = processed_files report)"
proof -
  let ?report = "\<lparr>batch_status = ''success'', batch_message = ''Processed 2 files'',
        batch_download_url = ''/download/batch_b1.zip'',
        processed_files = 2, total_files = 3,
        errors = [''Skipped notes.txt: Not a PDF file'']\<rparr>"
  have "fst (batch_process example_codec ''b1'' Map.empty example_files ''2'') = Inr ?report"
    by code_simp
  then obtain fs' where
    run: "batch_process example_codec ''b1'' Map.empty example_files ''2'' = (Inr ?report, fs')"
    by (cases "batch_process example_codec ''b1'' Map.empty example_files ''2''") auto
  from batch_report_counts [OF run] run show ?thesis by auto
qed

end
